theory Spec2Isabelle
  imports Complex_Main
begin

section \<open>Data model of \<open>main.py\<close>\<close>

text \<open>
  The simulation computes with Python numbers: dot sizes are \<open>int\<close>s, positions and
  velocities are lists of two numbers that are floats from the first update on.  The
  embedding reads every float operation as the exact operation on \<^typ>\<open>real\<close>; rounding,
  overflow and NaN are outside the model.  Every Python exception the modelled code can
  raise is a value of \<open>py_error\<close>.
\<close>

datatype py_error = ZeroDivisionError

text \<open>
  Class \<open>Dot\<close>: the two-element lists \<open>pos\<close> and \<open>vel\<close> are pairs; the attribute
  \<open>size\<close> is the field \<open>dot_size\<close>, after the constructor's parameter.
\<close>

record dot =
  pos :: "real \<times> real"
  vel :: "real \<times> real"
  color :: "nat \<times> nat \<times> nat"
  dot_size :: int
  visible :: bool

text \<open>
  The module-level names that the event handlers reassign: the camera offset
  \<open>CURRENT_POSITION\<close>, the zoom \<open>current_zoom\<close> and the window size \<open>WINDOW_SIZE\<close>.
\<close>

record globals =
  CURRENT_POSITION :: "real \<times> real"
  current_zoom :: real
  WINDOW_SIZE :: "int \<times> int"

definition WORLD_SIZE :: "int \<times> int" where
  "WORLD_SIZE = (6000, 4500)"

definition GRID_SIZE :: int where
  "GRID_SIZE = 25"

text \<open>The start-up values of the reassigned names.\<close>

definition initial_globals :: globals where
  "initial_globals =
     \<lparr>CURRENT_POSITION = (- real_of_int (fst WORLD_SIZE) / 2, - real_of_int (snd WORLD_SIZE) / 2),
      current_zoom = 1,
      WINDOW_SIZE = (800, 600)\<rparr>"

section \<open>Narrow-phase test\<close>

definition detect_collision :: "dot \<Rightarrow> dot \<Rightarrow> bool" where
  "detect_collision dot1 dot2 =
     (let dist_x = \<bar>fst (pos dot1) - fst (pos dot2)\<bar>;
          dist_y = \<bar>snd (pos dot1) - snd (pos dot2)\<bar>
      in if dist_x > real_of_int (dot_size dot1 + dot_size dot2)
            \<or> dist_y > real_of_int (dot_size dot1 + dot_size dot2)
         then False
         else
           (let dx = fst (pos dot1) - fst (pos dot2);
                dy = snd (pos dot1) - snd (pos dot2)
            in dx * dx + dy * dy < real_of_int ((dot_size dot1 + dot_size dot2) ^ 2)))"

section \<open>Elastic collision\<close>

text \<open>\<open>math.hypot\<close>, the Euclidean norm of a vector.\<close>

definition hypot :: "real \<Rightarrow> real \<Rightarrow> real" where
  "hypot x y = sqrt (x * x + y * y)"

text \<open>
  \<open>resolve_collision\<close> assigns \<open>dot1.vel\<close> and \<open>dot2.vel\<close> in its last two statements only.
  The model returns the two dots after the call; \<open>Inl\<close> is an exception raised before any
  assignment.  The two divisions raise on a zero divisor, as Python's \<open>/\<close> does.
\<close>

definition resolve_collision :: "dot \<Rightarrow> dot \<Rightarrow> py_error + dot \<times> dot" where
  "resolve_collision dot1 dot2 =
     (let (x1, y1) = pos dot1;
          (x2, y2) = pos dot2;
          (vx1, vy1) = vel dot1;
          (vx2, vy2) = vel dot2;
          dx = x2 - x1;
          dy = y2 - y1;
          dist = hypot dx dy
      in if dist = 0 then Inl ZeroDivisionError
         else
           (let nx = dx / dist;
                ny = dy / dist;
                dot_product = (vx2 - vx1) * nx + (vy2 - vy1) * ny
            in if dot_product > 0 then Inr (dot1, dot2)
               else
                 (let m1 = dot_size dot1;
                      m2 = dot_size dot2
                  in if m1 + m2 = 0 then Inl ZeroDivisionError
                     else
                       (let coeff = 2 * dot_product / real_of_int (m1 + m2);
                            vx1 = vx1 + coeff * real_of_int m2 * nx;
                            vy1 = vy1 + coeff * real_of_int m2 * ny;
                            vx2 = vx2 - coeff * real_of_int m1 * nx;
                            vy2 = vy2 - coeff * real_of_int m1 * ny
                        in Inr (dot1\<lparr>vel := (vx1, vy1)\<rparr>, dot2\<lparr>vel := (vx2, vy2)\<rparr>)))))"

section \<open>Spatial grid and movement\<close>

text \<open>
  The grid is a \<open>defaultdict(list)\<close>: an association list in insertion order, from a cell
  to the dots appended to it.  A dot in the grid is a reference, modelled by its index in
  \<open>DOTS\<close>.
\<close>

type_synonym cell = "int \<times> int"
type_synonym grid = "(cell \<times> nat list) list"

fun grid_append :: "grid \<Rightarrow> cell \<Rightarrow> nat \<Rightarrow> grid" where
  "grid_append [] c i = [(c, [i])]"
| "grid_append ((k, xs) # g) c i =
     (if k = c then (k, xs @ [i]) # g else (k, xs) # grid_append g c i)"

text \<open>
  \<open>get_grid_cell\<close> reads the global zoom.  Float floor division \<open>//\<close> followed by \<open>int\<close> is
  the floor of the quotient; both \<open>/\<close> and \<open>//\<close> raise on a zero divisor.
\<close>

definition get_grid_cell :: "globals \<Rightarrow> real \<times> real \<Rightarrow> py_error + cell" where
  "get_grid_cell G position =
     (if current_zoom G = 0 then Inl ZeroDivisionError
      else
        (let adjusted_grid_size = real_of_int GRID_SIZE / current_zoom G
         in if adjusted_grid_size = 0 then Inl ZeroDivisionError
            else Inr (\<lfloor>fst position / adjusted_grid_size\<rfloor>,
                      \<lfloor>snd position / adjusted_grid_size\<rfloor>)))"

text \<open>
  \<open>Dot.update\<close>: \<open>self\<close> is the dot \<open>d\<close> with reference \<open>i\<close>; the result is the dot after
  the call and the grid with the reference appended.
\<close>

definition update :: "globals \<Rightarrow> grid \<Rightarrow> nat \<Rightarrow> dot \<Rightarrow> py_error + dot \<times> grid" where
  "update G grid i d =
     (let s = real_of_int (dot_size d);
          w = real_of_int (fst WORLD_SIZE);
          h = real_of_int (snd WORLD_SIZE);
          px = fst (pos d) + fst (vel d);
          py = snd (pos d) + snd (vel d);
          vx = fst (vel d);
          vy = snd (vel d);
          (vx, px) = (if px < s \<or> px > w - s then (vx * (- 1), max s (min px (w - s)))
                      else (vx, px));
          (vy, py) = (if py < s \<or> py > h - s then (vy * (- 1), max s (min py (h - s)))
                      else (vy, py));
          d' = d\<lparr>pos := (px, py), vel := (vx, vy)\<rparr>
      in case get_grid_cell G (pos d') of
           Inl e \<Rightarrow> Inl e
         | Inr c \<Rightarrow> Inr (d', grid_append grid c i))"

section \<open>One frame\<close>

text \<open>A \<open>for\<close> loop over a list whose body may raise: the first exception ends the loop.\<close>

fun for_each :: "'a list \<Rightarrow> ('a \<Rightarrow> 's \<Rightarrow> py_error + 's) \<Rightarrow> 's \<Rightarrow> py_error + 's" where
  "for_each [] body s = Inr s"
| "for_each (x # xs) body s =
     (case body x s of Inl e \<Rightarrow> Inl e | Inr s' \<Rightarrow> for_each xs body s')"

definition neighbor_offsets :: "(int \<times> int) list" where
  "neighbor_offsets =
     [(dx, dy). dx \<leftarrow> [- 1, 0, 1], dy \<leftarrow> [- 1, 0, 1], dx \<noteq> 0 \<or> dy \<noteq> 0]"

text \<open>\<open>list(map(lambda dot: dot.update(grid), DOTS))\<close> on a fresh grid.\<close>

definition update_all :: "globals \<Rightarrow> dot list \<Rightarrow> py_error + dot list \<times> grid" where
  "update_all G ds =
     for_each [0..<length ds]
       (\<lambda>i (ds, grid).
          case update G grid i (ds ! i) of
            Inl e \<Rightarrow> Inl e
          | Inr (d', grid') \<Rightarrow> Inr (ds[i := d'], grid'))
       (ds, [])"

text \<open>
  The statement \<open>if detect_collision(dot1, dot2): resolve_collision(dot1, dot2)\<close> on the
  dots with references \<open>i\<close> and \<open>j\<close>.
\<close>

definition collide :: "nat \<Rightarrow> nat \<Rightarrow> dot list \<Rightarrow> py_error + dot list" where
  "collide i j ds =
     (if detect_collision (ds ! i) (ds ! j)
      then (case resolve_collision (ds ! i) (ds ! j) of
              Inl e \<Rightarrow> Inl e
            | Inr (d1, d2) \<Rightarrow> Inr (ds[i := d1, j := d2]))
      else Inr ds)"

text \<open>The body of the loop over \<open>grid.items()\<close>: the pairs of one cell, then its neighbours.\<close>

definition collide_cell :: "grid \<Rightarrow> cell \<Rightarrow> nat list \<Rightarrow> dot list \<Rightarrow> py_error + dot list" where
  "collide_cell grid cell dots ds =
     (case for_each [0..<length dots]
             (\<lambda>i. for_each [i + 1..<length dots] (\<lambda>j. collide (dots ! i) (dots ! j))) ds of
        Inl e \<Rightarrow> Inl e
      | Inr ds' \<Rightarrow>
          for_each neighbor_offsets
            (\<lambda>offset.
               let neighbor_cell = (fst cell + fst offset, snd cell + snd offset)
               in case map_of grid neighbor_cell of
                    None \<Rightarrow> Inr
                  | Some neighbors \<Rightarrow>
                      for_each dots (\<lambda>dot1. for_each neighbors (\<lambda>dot2. collide dot1 dot2)))
            ds')"

definition collisions :: "grid \<Rightarrow> dot list \<Rightarrow> py_error + dot list" where
  "collisions grid ds = for_each grid (\<lambda>(cell, dots). collide_cell grid cell dots) ds"

text \<open>The block under \<open>if not is_paused\<close>: all dots move, then the collisions.\<close>

definition physics :: "globals \<Rightarrow> dot list \<Rightarrow> py_error + dot list \<times> grid" where
  "physics G ds =
     (case update_all G ds of
        Inl e \<Rightarrow> Inl e
      | Inr (ds', grid) \<Rightarrow>
          (case collisions grid ds' of
             Inl e \<Rightarrow> Inl e
           | Inr ds'' \<Rightarrow> Inr (ds'', grid)))"

section \<open>Camera\<close>

text \<open>\<open>Dot.check_visibility\<close> returns the flag and stores it in the dot.\<close>

definition check_visibility :: "globals \<Rightarrow> dot \<Rightarrow> bool \<times> dot" where
  "check_visibility G d =
     (let x = fst (pos d) + fst (CURRENT_POSITION G);
          y = snd (pos d) + snd (CURRENT_POSITION G);
          is_visible =
            (- real_of_int (dot_size d) \<le> x * current_zoom G
             \<and> x * current_zoom G \<le> real_of_int (fst (WINDOW_SIZE G) + dot_size d)
             \<and> - real_of_int (dot_size d) \<le> y * current_zoom G
             \<and> y * current_zoom G \<le> real_of_int (snd (WINDOW_SIZE G) + dot_size d))
      in (is_visible, d\<lparr>visible := is_visible\<rparr>))"

text \<open>
  The loop that counts the visible dots, \<open>sum(map(Dot.check_visibility, grid[cell]))\<close> for
  every cell: \<open>count_dot\<close> is \<open>check_visibility\<close> on the dot with reference \<open>i\<close>, added to
  the count.
\<close>

definition count_dot :: "globals \<Rightarrow> nat \<Rightarrow> nat \<times> dot list \<Rightarrow> nat \<times> dot list" where
  "count_dot G i st =
     (let (v, d') = check_visibility G (snd st ! i)
      in (fst st + (if v then 1 else 0), (snd st)[i := d']))"

definition count_visible :: "globals \<Rightarrow> grid \<Rightarrow> dot list \<Rightarrow> nat \<times> dot list" where
  "count_visible G grid ds = fold (\<lambda>(cell, dots). fold (count_dot G) dots) grid (0, ds)"

text \<open>
  The part of one pass of the main loop that touches the dots: the physics unless paused,
  then the visibility count over the grid.  The state is \<open>DOTS\<close> and the last grid.
\<close>

definition frame :: "globals \<Rightarrow> bool \<Rightarrow> dot list \<times> grid \<Rightarrow> py_error + nat \<times> dot list \<times> grid" where
  "frame G is_paused st =
     (case (if \<not> is_paused then physics G (fst st) else Inr st) of
        Inl e \<Rightarrow> Inl e
      | Inr (ds, grid) \<Rightarrow>
          (let (visible_dots, ds') = count_visible G grid ds
           in Inr (visible_dots, ds', grid)))"

text \<open>
  The screen point a world point is drawn at (the draw loop and \<open>check_visibility\<close>), and
  the world point under a screen point (the coordinates text).
\<close>

definition world_to_screen :: "globals \<Rightarrow> real \<times> real \<Rightarrow> real \<times> real" where
  "world_to_screen G p =
     ((fst p + fst (CURRENT_POSITION G)) * current_zoom G,
      (snd p + snd (CURRENT_POSITION G)) * current_zoom G)"

definition screen_to_world :: "globals \<Rightarrow> real \<times> real \<Rightarrow> py_error + real \<times> real" where
  "screen_to_world G m =
     (if current_zoom G = 0 then Inl ZeroDivisionError
      else Inr (fst m / current_zoom G - fst (CURRENT_POSITION G),
                snd m / current_zoom G - snd (CURRENT_POSITION G)))"

text \<open>
  The \<open>MOUSEWHEEL\<close> branch.  \<open>zoom_to\<close> is its second half, the three assignments that move
  the camera to a given new zoom around the mouse position; \<open>on_mousewheel\<close> is the whole
  branch for wheel movement \<open>event_y\<close>.
\<close>

definition zoom_to :: "real \<Rightarrow> real \<times> real \<Rightarrow> globals \<Rightarrow> py_error + globals" where
  "zoom_to new_zoom mouse G =
     (if current_zoom G = 0 \<or> new_zoom = 0 then Inl ZeroDivisionError
      else Inr (G\<lparr>CURRENT_POSITION :=
                    (fst (CURRENT_POSITION G) - (fst mouse / current_zoom G - fst mouse / new_zoom),
                     snd (CURRENT_POSITION G) - (snd mouse / current_zoom G - snd mouse / new_zoom)),
                  current_zoom := new_zoom\<rparr>))"

definition on_mousewheel :: "int \<Rightarrow> real \<times> real \<Rightarrow> globals \<Rightarrow> py_error + globals" where
  "on_mousewheel event_y mouse G =
     (let zoom_factor = (if event_y > 0 then 0.05 else - 0.05);
          zoom_speed = 0.5 + current_zoom G / 3;
          new_zoom = current_zoom G + zoom_factor * zoom_speed;
          new_zoom = max 0.1 (min new_zoom 3)
      in zoom_to new_zoom mouse G)"

section \<open>Quantities the properties speak about\<close>

text \<open>
  The unit normal and the relative velocity along it, as \<open>resolve_collision\<close> computes them
  (\<open>nx, ny\<close> and \<open>dot_product\<close>).
\<close>

definition collision_normal :: "dot \<Rightarrow> dot \<Rightarrow> real \<times> real" where
  "collision_normal dot1 dot2 =
     (let dx = fst (pos dot2) - fst (pos dot1);
          dy = snd (pos dot2) - snd (pos dot1);
          dist = hypot dx dy
      in (dx / dist, dy / dist))"

definition normal_velocity :: "dot \<Rightarrow> dot \<Rightarrow> real" where
  "normal_velocity dot1 dot2 =
     (fst (vel dot2) - fst (vel dot1)) * fst (collision_normal dot1 dot2)
     + (snd (vel dot2) - snd (vel dot1)) * snd (collision_normal dot1 dot2)"

text \<open>Total momentum of two dots, the size being the mass.\<close>

definition momentum :: "dot \<Rightarrow> dot \<Rightarrow> real \<times> real" where
  "momentum a b =
     (real_of_int (dot_size a) * fst (vel a) + real_of_int (dot_size b) * fst (vel b),
      real_of_int (dot_size a) * snd (vel a) + real_of_int (dot_size b) * snd (vel b))"

text \<open>The component of a dot's velocity along the tangent \<open>(- ny, nx)\<close> of a normal.\<close>

definition tangential_velocity :: "real \<times> real \<Rightarrow> dot \<Rightarrow> real" where
  "tangential_velocity n d = snd (vel d) * fst n - fst (vel d) * snd n"

text \<open>Two overlapping dots of size 13 on a horizontal line, approaching each other.\<close>

definition dot_a :: dot where
  "dot_a = \<lparr>pos = (100, 100), vel = (1, 2), color = (255, 255, 255), dot_size = 13, visible = False\<rparr>"

definition dot_b :: dot where
  "dot_b = \<lparr>pos = (120, 100), vel = (- 1, 0), color = (255, 255, 255), dot_size = 13, visible = False\<rparr>"

text \<open>Whether a coordinate is beyond a wall, the condition of the bounce in \<open>Dot.update\<close>.\<close>

definition hits_wall :: "real \<Rightarrow> int \<Rightarrow> int \<Rightarrow> bool" where
  "hits_wall p s w = (p < real_of_int s \<or> p > real_of_int w - real_of_int s)"

text \<open>
  The visibility predicate in the specification's words: the screen-space bounding box of
  a dot, its screen position widened by the size on every side, meets the window
  rectangle.
\<close>

definition screen_bounding_box :: "globals \<Rightarrow> dot \<Rightarrow> (real \<times> real) set" where
  "screen_bounding_box G d =
     (let s = world_to_screen G (pos d);
          r = real_of_int (dot_size d)
      in {fst s - r .. fst s + r} \<times> {snd s - r .. snd s + r})"

definition screen_rectangle :: "globals \<Rightarrow> (real \<times> real) set" where
  "screen_rectangle G =
     {0 .. real_of_int (fst (WINDOW_SIZE G))} \<times> {0 .. real_of_int (snd (WINDOW_SIZE G))}"

definition box_on_screen :: "globals \<Rightarrow> dot \<Rightarrow> bool" where
  "box_on_screen G d \<longleftrightarrow> screen_bounding_box G d \<inter> screen_rectangle G \<noteq> {}"

text \<open>Positions and velocities of all dots, and those after a frame.\<close>

definition kinematics :: "dot list \<Rightarrow> ((real \<times> real) \<times> (real \<times> real)) list" where
  "kinematics ds = map (\<lambda>d. (pos d, vel d)) ds"

definition frame_kinematics ::
  "py_error + nat \<times> dot list \<times> grid \<Rightarrow> py_error + ((real \<times> real) \<times> (real \<times> real)) list" where
  "frame_kinematics r = (case r of Inl e \<Rightarrow> Inl e | Inr (n, ds, grid) \<Rightarrow> Inr (kinematics ds))"

text \<open>The camera of the visibility and zoom scenarios, and the two dots of the former.\<close>

definition scenario_globals :: globals where
  "scenario_globals = \<lparr>CURRENT_POSITION = (0, 0), current_zoom = 1, WINDOW_SIZE = (800, 600)\<rparr>"

definition dot_near :: dot where
  "dot_near = \<lparr>pos = (100, 100), vel = (0, 0), color = (255, 255, 255), dot_size = 10, visible = False\<rparr>"

definition dot_far :: dot where
  "dot_far = \<lparr>pos = (5000, 4000), vel = (0, 0), color = (255, 255, 255), dot_size = 10, visible = True\<rparr>"

text \<open>Two dots of one size that move into the same corner of the world.\<close>

definition dot_corner1 :: dot where
  "dot_corner1 = \<lparr>pos = (14, 14), vel = (- 5, - 5), color = (255, 0, 0), dot_size = 13, visible = False\<rparr>"

definition dot_corner2 :: dot where
  "dot_corner2 = \<lparr>pos = (15, 16), vel = (- 5, - 5), color = (0, 255, 0), dot_size = 13, visible = False\<rparr>"

text \<open>A dot that leaves the world in one step, and a dot at rest.\<close>

definition dot_fast :: dot where
  "dot_fast = \<lparr>pos = (5990, 20), vel = (1000000, - 3), color = (0, 0, 255), dot_size = 19, visible = False\<rparr>"

definition dot_mid :: dot where
  "dot_mid = \<lparr>pos = (30, 30), vel = (0, 0), color = (0, 0, 255), dot_size = 13, visible = False\<rparr>"

text \<open>
  One colliding pair: the dots with references \<open>a\<close> and \<open>b\<close> collide, and no other two
  different dots of the list do.
\<close>

definition lone_pair :: "dot list \<Rightarrow> nat \<Rightarrow> nat \<Rightarrow> bool" where
  "lone_pair ds a b \<longleftrightarrow>
     detect_collision (ds ! a) (ds ! b)
     \<and> (\<forall>i < length ds. \<forall>j < length ds.
           i \<noteq> j \<longrightarrow> {i, j} \<noteq> {a, b} \<longrightarrow> \<not> detect_collision (ds ! i) (ds ! j))"

text \<open>
  Two properties of a piece of the collision phase \<open>f\<close>, relative to the dots \<open>ds\<close> it
  starts from and the outcome \<open>T\<close> of resolving the one colliding pair once.  At most once:
  from \<open>ds\<close> the piece leaves the dots alone or has outcome \<open>T\<close>, and from the dots of \<open>T\<close> it
  changes nothing.  Exactly once: from \<open>ds\<close> it has outcome \<open>T\<close>.
\<close>

definition at_most_once ::
  "dot list \<Rightarrow> py_error + dot list \<Rightarrow> (dot list \<Rightarrow> py_error + dot list) \<Rightarrow> bool" where
  "at_most_once ds T f \<longleftrightarrow> (f ds = Inr ds \<or> f ds = T) \<and> (\<forall>R. T = Inr R \<longrightarrow> f R = T)"

definition exactly_once ::
  "dot list \<Rightarrow> py_error + dot list \<Rightarrow> (dot list \<Rightarrow> py_error + dot list) \<Rightarrow> bool" where
  "exactly_once ds T f \<longleftrightarrow> f ds = T \<and> (\<forall>R. T = Inr R \<longrightarrow> f R = T)"

text \<open>
  Three dots for one tick: after moving, the first and the third overlap across the border
  of the cells \<open>(3, 4)\<close> and \<open>(4, 4)\<close>, and the small second one touches neither.
\<close>

definition tick_dots :: "dot list" where
  "tick_dots =
     [\<lparr>pos = (94, 98), vel = (1, 2), color = (255, 0, 0), dot_size = 13, visible = False\<rparr>,
      \<lparr>pos = (80, 112), vel = (0, 0), color = (0, 255, 0), dot_size = 1, visible = False\<rparr>,
      \<lparr>pos = (116, 100), vel = (- 1, 0), color = (0, 0, 255), dot_size = 13, visible = False\<rparr>]"

definition tick_moved :: "dot list" where
  "tick_moved =
     [\<lparr>pos = (95, 100), vel = (1, 2), color = (255, 0, 0), dot_size = 13, visible = False\<rparr>,
      \<lparr>pos = (80, 112), vel = (0, 0), color = (0, 255, 0), dot_size = 1, visible = False\<rparr>,
      \<lparr>pos = (115, 100), vel = (- 1, 0), color = (0, 0, 255), dot_size = 13, visible = False\<rparr>]"

definition tick_result :: "dot list" where
  "tick_result =
     [\<lparr>pos = (95, 100), vel = (- 1, 2), color = (255, 0, 0), dot_size = 13, visible = False\<rparr>,
      \<lparr>pos = (80, 112), vel = (0, 0), color = (0, 255, 0), dot_size = 1, visible = False\<rparr>,
      \<lparr>pos = (115, 100), vel = (1, 0), color = (0, 0, 255), dot_size = 13, visible = False\<rparr>]"

section \<open>Properties\<close>

subsection \<open>Narrow phase\<close>

lemma abs_gt_square_ge:
  fixes d s :: real
  assumes "0 \<le> s" "s < \<bar>d\<bar>"
  shows "s * s \<le> d * d"
proof -
  have "s * s \<le> \<bar>d\<bar> * \<bar>d\<bar>"
    using assms by (intro mult_mono) auto
  then show ?thesis by simp
qed

text \<open>
  Claim C7.  For two dots whose sizes are not negative, \<open>detect_collision\<close> is true exactly
  when the squared distance of the centres is strictly below the squared sum of the sizes;
  the bounding-box rejection never changes the result of the exact test, and exact
  tangency is no collision.
\<close>

theorem detect_collision_iff_exact:
  assumes "0 \<le> dot_size a" "0 \<le> dot_size b"
  shows "detect_collision a b \<longleftrightarrow>
           (fst (pos a) - fst (pos b))\<^sup>2 + (snd (pos a) - snd (pos b))\<^sup>2
             < (real_of_int (dot_size a) + real_of_int (dot_size b))\<^sup>2"
proof -
  define s where "s = real_of_int (dot_size a) + real_of_int (dot_size b)"
  define dx where "dx = fst (pos a) - fst (pos b)"
  define dy where "dy = snd (pos a) - snd (pos b)"
  have s0: "0 \<le> s" using assms by (simp add: s_def)
  have rej_x: "\<not> dx * dx + dy * dy < s * s" if "s < \<bar>dx\<bar>"
  proof -
    have "s * s \<le> dx * dx" using s0 that by (rule abs_gt_square_ge)
    moreover have "0 \<le> dy * dy" by simp
    ultimately show ?thesis by linarith
  qed
  have rej_y: "\<not> dx * dx + dy * dy < s * s" if "s < \<bar>dy\<bar>"
  proof -
    have "s * s \<le> dy * dy" using s0 that by (rule abs_gt_square_ge)
    moreover have "0 \<le> dx * dx" by simp
    ultimately show ?thesis by linarith
  qed
  have "detect_collision a b \<longleftrightarrow>
          (if s < \<bar>dx\<bar> \<or> s < \<bar>dy\<bar> then False else dx * dx + dy * dy < s * s)"
    by (simp add: detect_collision_def Let_def s_def dx_def dy_def power2_eq_square)
  also have "\<dots> \<longleftrightarrow> dx * dx + dy * dy < s * s"
    using rej_x rej_y by auto
  finally show ?thesis
    by (simp add: s_def dx_def dy_def power2_eq_square)
qed

theorem detect_collision_iff_exact_witness:
  "0 \<le> dot_size dot_a \<and> 0 \<le> dot_size dot_b \<and> detect_collision dot_a dot_b"
proof -
  have h: "0 \<le> dot_size dot_a" "0 \<le> dot_size dot_b" by (simp_all add: dot_a_def dot_b_def)
  show ?thesis
    using h detect_collision_iff_exact[OF h] by (simp add: dot_a_def dot_b_def)
qed

subsection \<open>Elastic collision\<close>

lemma hypot_eq_0_iff: "hypot x y = 0 \<longleftrightarrow> x = 0 \<and> y = 0"
  by (simp add: hypot_def)

lemma hypot_square: "hypot x y * hypot x y = x * x + y * y"
  by (simp add: hypot_def)

lemma hypot_axis: "hypot x 0 = \<bar>x\<bar>"
  by (simp add: hypot_def)

lemma normal_unit:
  assumes "pos d1 \<noteq> pos d2"
  shows "fst (collision_normal d1 d2) * fst (collision_normal d1 d2)
         + snd (collision_normal d1 d2) * snd (collision_normal d1 d2) = 1"
proof -
  define dx where "dx = fst (pos d2) - fst (pos d1)"
  define dy where "dy = snd (pos d2) - snd (pos d1)"
  define h where "h = hypot dx dy"
  have "dx \<noteq> 0 \<or> dy \<noteq> 0"
    using assms by (auto simp: dx_def dy_def prod_eq_iff)
  then have h0: "h \<noteq> 0" by (auto simp: h_def hypot_eq_0_iff)
  have hh: "h * h = dx * dx + dy * dy" by (simp add: h_def hypot_square)
  have "dx / h * (dx / h) + dy / h * (dy / h) = (dx * dx + dy * dy) / (h * h)"
    by (simp add: add_divide_distrib)
  also have "\<dots> = (h * h) / (h * h)" by (simp only: hh)
  also have "\<dots> = 1" using h0 by simp
  finally show ?thesis
    by (simp add: collision_normal_def Let_def dx_def dy_def h_def)
qed

lemma resolve_collision_cases:
  "resolve_collision d1 d2 =
     (if pos d1 = pos d2 then Inl ZeroDivisionError
      else if normal_velocity d1 d2 > 0 then Inr (d1, d2)
      else if dot_size d1 + dot_size d2 = 0 then Inl ZeroDivisionError
      else
        (let n = collision_normal d1 d2;
             k = 2 * normal_velocity d1 d2 / real_of_int (dot_size d1 + dot_size d2)
         in Inr (d1\<lparr>vel := (fst (vel d1) + k * real_of_int (dot_size d2) * fst n,
                           snd (vel d1) + k * real_of_int (dot_size d2) * snd n)\<rparr>,
                 d2\<lparr>vel := (fst (vel d2) - k * real_of_int (dot_size d1) * fst n,
                           snd (vel d2) - k * real_of_int (dot_size d1) * snd n)\<rparr>)))"
proof -
  have z: "hypot (fst (pos d2) - fst (pos d1)) (snd (pos d2) - snd (pos d1)) = 0
           \<longleftrightarrow> pos d1 = pos d2"
    by (auto simp: hypot_eq_0_iff prod_eq_iff)
  show ?thesis
    unfolding resolve_collision_def normal_velocity_def collision_normal_def
    using z by (simp add: Let_def case_prod_beta)
qed

lemma resolve_collision_keeps:
  assumes "resolve_collision a b = Inr (a', b')"
  shows "pos a' = pos a" "pos b' = pos b" "dot_size a' = dot_size a" "dot_size b' = dot_size b"
        "color a' = color a" "color b' = color b" "visible a' = visible a" "visible b' = visible b"
  using assms by (auto simp: resolve_collision_cases Let_def split: if_splits)

lemma resolve_collision_coincident:
  "pos a = pos b \<Longrightarrow> resolve_collision a b = Inl ZeroDivisionError"
  by (simp add: resolve_collision_cases)

lemma get_grid_cell_zoom1: "get_grid_cell initial_globals (13, 13) = Inr (0, 0)"
  by (simp add: get_grid_cell_def initial_globals_def GRID_SIZE_def Let_def)

lemma update_corner1:
  "update initial_globals [] 0 dot_corner1
     = Inr (dot_corner1\<lparr>pos := (13, 13), vel := (5, 5)\<rparr>, [((0, 0), [0])])"
  by (simp add: update_def Let_def dot_corner1_def WORLD_SIZE_def get_grid_cell_zoom1)

lemma update_corner2:
  "update initial_globals [((0, 0), [0])] 1 dot_corner2
     = Inr (dot_corner2\<lparr>pos := (13, 13), vel := (5, 5)\<rparr>, [((0, 0), [0, 1])])"
  by (simp add: update_def Let_def dot_corner2_def WORLD_SIZE_def get_grid_cell_zoom1)

lemma upt_2: "[0..<2] = [0, Suc 0]"
  by (simp add: upt_rec)

lemma update_all_corner:
  "update_all initial_globals [dot_corner1, dot_corner2]
     = Inr ([dot_corner1\<lparr>pos := (13, 13), vel := (5, 5)\<rparr>,
             dot_corner2\<lparr>pos := (13, 13), vel := (5, 5)\<rparr>], [((0, 0), [0, 1])])"
  using update_corner1 update_corner2
  by (simp add: update_all_def upt_2)

text \<open>
  Claim C2.  The claim asks for a no-op on coincident centres.  The code divides by the
  distance of the centres without a test: on two dots at one position \<open>resolve_collision\<close>
  raises \<open>ZeroDivisionError\<close>, and a frame in which two dots of one size are pushed into
  the same corner ends with that exception.
\<close>

theorem coincident_centres_raise:
  "pos (dot_corner1\<lparr>pos := (13, 13), vel := (5, 5)\<rparr>) = pos (dot_corner2\<lparr>pos := (13, 13), vel := (5, 5)\<rparr>)
   \<and> resolve_collision (dot_corner1\<lparr>pos := (13, 13), vel := (5, 5)\<rparr>)
         (dot_corner2\<lparr>pos := (13, 13), vel := (5, 5)\<rparr>) = Inl ZeroDivisionError
   \<and> physics initial_globals [dot_corner1, dot_corner2] = Inl ZeroDivisionError"
proof -
  let ?a = "dot_corner1\<lparr>pos := (13, 13), vel := (5, 5)\<rparr>"
  let ?b = "dot_corner2\<lparr>pos := (13, 13), vel := (5, 5)\<rparr>"
  have p: "pos ?a = pos ?b" by simp
  have r: "resolve_collision ?a ?b = Inl ZeroDivisionError"
    by (rule resolve_collision_coincident) simp
  have d: "detect_collision ?a ?b"
    by (simp add: detect_collision_def dot_corner1_def dot_corner2_def)
  have c: "collide 0 (Suc 0) [?a, ?b] = Inl ZeroDivisionError"
    using d r by (simp add: collide_def)
  have "collide_cell [((0, 0), [0, 1])] (0, 0) [0, 1] [?a, ?b] = Inl ZeroDivisionError"
    using c by (simp add: collide_cell_def upt_2 upt_rec)
  then have "collisions [((0, 0), [0, 1])] [?a, ?b] = Inl ZeroDivisionError"
    by (simp add: collisions_def)
  then have "physics initial_globals [dot_corner1, dot_corner2] = Inl ZeroDivisionError"
    by (simp add: physics_def update_all_corner)
  with p r show ?thesis by simp
qed

text \<open>
  Claim C3.  For two dots of positive size whose centres differ, \<open>resolve_collision\<close>
  returns, keeps both sizes, and the total momentum (size times velocity, summed over the
  two dots) after the call equals the total momentum before it, for every pair of
  velocities.
\<close>

theorem resolve_collision_momentum:
  assumes "0 < dot_size a" "0 < dot_size b" "pos a \<noteq> pos b"
  shows "\<exists>a' b'. resolve_collision a b = Inr (a', b')
           \<and> dot_size a' = dot_size a \<and> dot_size b' = dot_size b
           \<and> momentum a' b' = momentum a b"
proof -
  have nz: "dot_size a + dot_size b \<noteq> 0" using assms by simp
  show ?thesis
  proof (cases "normal_velocity a b > 0")
    case True
    then show ?thesis using assms by (simp add: resolve_collision_cases)
  next
    case False
    then show ?thesis
      using assms nz
      by (simp add: resolve_collision_cases Let_def momentum_def algebra_simps)
  qed
qed


theorem resolve_collision_momentum_witness:
  "0 < dot_size dot_a \<and> 0 < dot_size dot_b \<and> pos dot_a \<noteq> pos dot_b
   \<and> (\<exists>a' b'. resolve_collision dot_a dot_b = Inr (a', b')
         \<and> dot_size a' = dot_size dot_a \<and> dot_size b' = dot_size dot_b
         \<and> momentum a' b' = momentum dot_a dot_b)
   \<and> momentum dot_a dot_b = (0, 26)"
proof -
  have h: "0 < dot_size dot_a" "0 < dot_size dot_b" "pos dot_a \<noteq> pos dot_b"
    by (simp_all add: dot_a_def dot_b_def)
  have m: "momentum dot_a dot_b = (0, 26)"
    by (simp add: momentum_def dot_a_def dot_b_def)
  show ?thesis
    using h m resolve_collision_momentum[OF h] by simp
qed

lemma normal_velocity_after:
  assumes ne: "pos a \<noteq> pos b" and nz: "dot_size a + dot_size b \<noteq> 0"
    and pa: "pos a' = pos a" and pb: "pos b' = pos b"
    and va: "vel a' = (fst (vel a) + k * real_of_int (dot_size b) * fst (collision_normal a b),
                       snd (vel a) + k * real_of_int (dot_size b) * snd (collision_normal a b))"
    and vb: "vel b' = (fst (vel b) - k * real_of_int (dot_size a) * fst (collision_normal a b),
                       snd (vel b) - k * real_of_int (dot_size a) * snd (collision_normal a b))"
    and k: "k = 2 * normal_velocity a b / real_of_int (dot_size a + dot_size b)"
  shows "normal_velocity a' b' = - normal_velocity a b"
proof -
  define nx where "nx = fst (collision_normal a b)"
  define ny where "ny = snd (collision_normal a b)"
  define m where "m = real_of_int (dot_size a + dot_size b)"
  define vn where "vn = normal_velocity a b"
  have n': "collision_normal a' b' = collision_normal a b"
    by (simp add: collision_normal_def pa pb)
  have unit: "nx * nx + ny * ny = 1"
    using normal_unit[OF ne] by (simp add: nx_def ny_def)
  have m0: "m \<noteq> 0" using nz by (simp add: m_def)
  have km: "k * m = 2 * vn" using m0 by (simp add: k m_def vn_def)
  have "normal_velocity a' b' = vn - (k * m) * (nx * nx + ny * ny)"
    unfolding normal_velocity_def n' va vb
    by (simp add: nx_def ny_def m_def vn_def normal_velocity_def algebra_simps)
  also have "\<dots> = - vn" by (simp add: km unit)
  finally show ?thesis by (simp add: vn_def)
qed

text \<open>
  Claim C4.  When \<open>resolve_collision\<close> applies the impulse (the centres differ, the sizes do
  not sum to zero, and the relative velocity along the normal is not positive), the
  relative velocity along the normal changes sign and keeps its magnitude, and the
  tangential velocity of each dot is unchanged.
\<close>

theorem resolve_collision_elastic:
  assumes "pos a \<noteq> pos b" "dot_size a + dot_size b \<noteq> 0" "\<not> normal_velocity a b > 0"
  shows "\<exists>a' b'. resolve_collision a b = Inr (a', b')
           \<and> normal_velocity a' b' = - normal_velocity a b
           \<and> \<bar>normal_velocity a' b'\<bar> = \<bar>normal_velocity a b\<bar>
           \<and> tangential_velocity (collision_normal a b) a'
               = tangential_velocity (collision_normal a b) a
           \<and> tangential_velocity (collision_normal a b) b'
               = tangential_velocity (collision_normal a b) b"
proof -
  define k where "k = 2 * normal_velocity a b / real_of_int (dot_size a + dot_size b)"
  define n where "n = collision_normal a b"
  define a' where "a' = a\<lparr>vel := (fst (vel a) + k * real_of_int (dot_size b) * fst n,
                                  snd (vel a) + k * real_of_int (dot_size b) * snd n)\<rparr>"
  define b' where "b' = b\<lparr>vel := (fst (vel b) - k * real_of_int (dot_size a) * fst n,
                                  snd (vel b) - k * real_of_int (dot_size a) * snd n)\<rparr>"
  have r: "resolve_collision a b = Inr (a', b')"
    using assms by (simp add: resolve_collision_cases Let_def a'_def b'_def k_def n_def)
  have vn: "normal_velocity a' b' = - normal_velocity a b"
    by (rule normal_velocity_after[OF assms(1,2), where k = k])
       (simp_all add: a'_def b'_def n_def k_def)
  have ta: "tangential_velocity n a' = tangential_velocity n a"
    by (simp add: tangential_velocity_def a'_def algebra_simps)
  have tb: "tangential_velocity n b' = tangential_velocity n b"
    by (simp add: tangential_velocity_def b'_def algebra_simps)
  show ?thesis using r vn ta tb by (simp add: n_def)
qed

theorem resolve_collision_elastic_witness:
  "pos dot_a \<noteq> pos dot_b \<and> dot_size dot_a + dot_size dot_b \<noteq> 0
   \<and> normal_velocity dot_a dot_b = - 2
   \<and> (\<exists>a' b'. resolve_collision dot_a dot_b = Inr (a', b')
         \<and> normal_velocity a' b' = 2
         \<and> tangential_velocity (collision_normal dot_a dot_b) a' = 2
         \<and> tangential_velocity (collision_normal dot_a dot_b) b' = 0)"
proof -
  have n: "collision_normal dot_a dot_b = (1, 0)"
    by (simp add: collision_normal_def dot_a_def dot_b_def hypot_axis)
  have v: "normal_velocity dot_a dot_b = - 2"
    by (simp add: normal_velocity_def n) (simp add: dot_a_def dot_b_def)
  have h: "pos dot_a \<noteq> pos dot_b" "dot_size dot_a + dot_size dot_b \<noteq> 0"
    "\<not> normal_velocity dot_a dot_b > 0"
    by (simp_all add: v) (simp_all add: dot_a_def dot_b_def)
  have t: "tangential_velocity (collision_normal dot_a dot_b) dot_a = 2"
    "tangential_velocity (collision_normal dot_a dot_b) dot_b = 0"
    by (simp_all add: tangential_velocity_def n) (simp_all add: dot_a_def dot_b_def)
  show ?thesis
    using h v t resolve_collision_elastic[OF h] by auto
qed

lemma hypot_minus: "hypot (- x) (- y) = hypot x y"
  by (simp add: hypot_def)

lemma collision_normal_swap:
  "collision_normal b a = (- fst (collision_normal a b), - snd (collision_normal a b))"
proof -
  have "hypot (fst (pos a) - fst (pos b)) (snd (pos a) - snd (pos b))
        = hypot (fst (pos b) - fst (pos a)) (snd (pos b) - snd (pos a))"
    using hypot_minus[of "fst (pos b) - fst (pos a)" "snd (pos b) - snd (pos a)"] by simp
  then show ?thesis
    by (simp add: collision_normal_def Let_def minus_divide_left)
qed

lemma normal_velocity_swap: "normal_velocity b a = normal_velocity a b"
  by (simp add: normal_velocity_def collision_normal_swap[of a b] algebra_simps)

lemma resolve_collision_swap:
  assumes "resolve_collision a b = Inr (a', b')"
  shows "resolve_collision b a = Inr (b', a')"
proof -
  have ne: "pos a \<noteq> pos b" using assms by (auto simp: resolve_collision_cases)
  then have ne': "pos b \<noteq> pos a" by auto
  show ?thesis
  proof (cases "normal_velocity a b > 0")
    case True
    then show ?thesis
      using assms ne ne' by (simp add: resolve_collision_cases normal_velocity_swap[of a b])
  next
    case False
    then have nz: "dot_size a + dot_size b \<noteq> 0"
      using assms ne by (auto simp: resolve_collision_cases split: if_splits)
    then have nz': "dot_size b + dot_size a \<noteq> 0" by (simp add: add.commute)
    have c: "dot_size b + dot_size a = dot_size a + dot_size b" by simp
    show ?thesis
      using assms ne ne' False nz nz'
      by (simp add: resolve_collision_cases[of b a] resolve_collision_cases[of a b]
            normal_velocity_swap[of a b] collision_normal_swap[of a b] Let_def c)
  qed
qed

lemma resolve_collision_again:
  assumes "resolve_collision a b = Inr (a', b')"
  shows "resolve_collision a' b' = Inr (a', b')"
proof -
  have ne: "pos a \<noteq> pos b" using assms by (auto simp: resolve_collision_cases)
  note keep = resolve_collision_keeps[OF assms]
  have ne': "pos a' \<noteq> pos b'" using ne keep by simp
  show ?thesis
  proof (cases "normal_velocity a b > 0")
    case True
    then have "a' = a" "b' = b" using assms ne by (auto simp: resolve_collision_cases)
    then show ?thesis using assms by simp
  next
    case False
    then have nz: "dot_size a + dot_size b \<noteq> 0"
      using assms ne by (auto simp: resolve_collision_cases split: if_splits)
    have nz': "dot_size a' + dot_size b' \<noteq> 0" using nz keep by simp
    define k where "k = 2 * normal_velocity a b / real_of_int (dot_size a + dot_size b)"
    have va: "vel a' = (fst (vel a) + k * real_of_int (dot_size b) * fst (collision_normal a b),
                       snd (vel a) + k * real_of_int (dot_size b) * snd (collision_normal a b))"
      and vb: "vel b' = (fst (vel b) - k * real_of_int (dot_size a) * fst (collision_normal a b),
                       snd (vel b) - k * real_of_int (dot_size a) * snd (collision_normal a b))"
      using assms ne False nz by (auto simp: resolve_collision_cases Let_def k_def)
    have vn': "normal_velocity a' b' = - normal_velocity a b"
      by (rule normal_velocity_after[OF ne nz keep(1) keep(2) va vb k_def])
    show ?thesis
    proof (cases "normal_velocity a b = 0")
      case True
      then have "normal_velocity a' b' = 0" using vn' by simp
      then show ?thesis
        using ne' nz' by (simp add: resolve_collision_cases[of a' b'] Let_def)
    next
      case nonzero: False
      then have "normal_velocity a' b' > 0" using vn' False by simp
      then show ?thesis using ne' by (simp add: resolve_collision_cases[of a' b'])
    qed
  qed
qed

subsection \<open>Walls and grid\<close>

lemma get_grid_cell_Inr:
  assumes "current_zoom G \<noteq> 0"
  shows "get_grid_cell G p
           = Inr (\<lfloor>fst p / (real_of_int GRID_SIZE / current_zoom G)\<rfloor>,
                  \<lfloor>snd p / (real_of_int GRID_SIZE / current_zoom G)\<rfloor>)"
  using assms by (simp add: get_grid_cell_def Let_def GRID_SIZE_def)

text \<open>
  Claim C5.  For a dot whose diameter fits into the world on both axes, \<open>Dot.update\<close>
  returns (the zoom is not zero) a dot with \<open>size \<le> pos \<le> WORLD_SIZE - size\<close> on both
  axes, whatever its position and velocity were; on each axis the velocity is negated
  exactly when the moved position is beyond a wall.
\<close>

theorem update_wall_containment:
  assumes "2 * dot_size d \<le> fst WORLD_SIZE" "2 * dot_size d \<le> snd WORLD_SIZE"
    and "current_zoom G \<noteq> 0"
  shows "\<exists>d' grid'. update G grid i d = Inr (d', grid')
           \<and> dot_size d' = dot_size d
           \<and> real_of_int (dot_size d') \<le> fst (pos d')
           \<and> fst (pos d') \<le> real_of_int (fst WORLD_SIZE) - real_of_int (dot_size d')
           \<and> real_of_int (dot_size d') \<le> snd (pos d')
           \<and> snd (pos d') \<le> real_of_int (snd WORLD_SIZE) - real_of_int (dot_size d')
           \<and> fst (vel d') = (if hits_wall (fst (pos d) + fst (vel d)) (dot_size d) (fst WORLD_SIZE)
                              then - fst (vel d) else fst (vel d))
           \<and> snd (vel d') = (if hits_wall (snd (pos d) + snd (vel d)) (dot_size d) (snd WORLD_SIZE)
                              then - snd (vel d) else snd (vel d))"
proof -
  define s where "s = real_of_int (dot_size d)"
  define w where "w = real_of_int (fst WORLD_SIZE)"
  define h where "h = real_of_int (snd WORLD_SIZE)"
  have sw: "2 * s \<le> w" and sh: "2 * s \<le> h"
    using assms(1,2) unfolding s_def w_def h_def by linarith+
  show ?thesis
    unfolding update_def Let_def hits_wall_def
    using sw sh
    by (simp add: get_grid_cell_Inr[OF assms(3)] case_prod_beta s_def[symmetric]
          w_def[symmetric] h_def[symmetric])
qed

theorem update_wall_containment_witness:
  "2 * dot_size dot_fast \<le> fst WORLD_SIZE \<and> 2 * dot_size dot_fast \<le> snd WORLD_SIZE
   \<and> current_zoom initial_globals \<noteq> 0
   \<and> update initial_globals [] 0 dot_fast
       = Inr (dot_fast\<lparr>pos := (5981, 19), vel := (- 1000000, 3)\<rparr>, [((239, 0), [0])])
   \<and> (\<exists>d' grid'. update initial_globals [] 0 dot_fast = Inr (d', grid')
         \<and> real_of_int (dot_size d') \<le> fst (pos d')
         \<and> fst (pos d') \<le> real_of_int (fst WORLD_SIZE) - real_of_int (dot_size d')
         \<and> real_of_int (dot_size d') \<le> snd (pos d')
         \<and> snd (pos d') \<le> real_of_int (snd WORLD_SIZE) - real_of_int (dot_size d'))"
proof -
  have h: "2 * dot_size dot_fast \<le> fst WORLD_SIZE" "2 * dot_size dot_fast \<le> snd WORLD_SIZE"
    "current_zoom initial_globals \<noteq> 0"
    by (simp_all add: dot_fast_def WORLD_SIZE_def initial_globals_def)
  have c: "get_grid_cell initial_globals (5981, 19) = Inr (239, 0)"
    by (simp add: get_grid_cell_def initial_globals_def GRID_SIZE_def Let_def)
  have u: "update initial_globals [] 0 dot_fast
       = Inr (dot_fast\<lparr>pos := (5981, 19), vel := (- 1000000, 3)\<rparr>, [((239, 0), [0])])"
    by (simp add: update_def Let_def dot_fast_def WORLD_SIZE_def c)
  show ?thesis
    using h u update_wall_containment[OF h, of "[]" 0] by auto
qed

text \<open>
  Claim C6, as stated, fails: the cell side is \<open>GRID_SIZE / current_zoom\<close>, so the same
  position falls into cell \<open>(1, 1)\<close> at zoom 1 and into cell \<open>(2, 2)\<close> at zoom 2.
\<close>

theorem grid_cell_depends_on_zoom:
  "get_grid_cell (initial_globals\<lparr>current_zoom := 1\<rparr>) (30, 30) = Inr (1, 1)
   \<and> get_grid_cell (initial_globals\<lparr>current_zoom := 2\<rparr>) (30, 30) = Inr (2, 2)
   \<and> update (initial_globals\<lparr>current_zoom := 1\<rparr>) [] 0 dot_mid = Inr (dot_mid, [((1, 1), [0])])
   \<and> update (initial_globals\<lparr>current_zoom := 2\<rparr>) [] 0 dot_mid = Inr (dot_mid, [((2, 2), [0])])"
proof -
  have c1: "get_grid_cell (initial_globals\<lparr>current_zoom := 1\<rparr>) (30, 30) = Inr (1, 1)"
    by (simp add: get_grid_cell_def GRID_SIZE_def Let_def)
  have c2: "get_grid_cell (initial_globals\<lparr>current_zoom := 2\<rparr>) (30, 30) = Inr (2, 2)"
    by (simp add: get_grid_cell_def GRID_SIZE_def Let_def)
  have u1: "update (initial_globals\<lparr>current_zoom := 1\<rparr>) [] 0 dot_mid = Inr (dot_mid, [((1, 1), [0])])"
    by (simp add: update_def Let_def WORLD_SIZE_def dot_mid_def c1)
  have u2: "update (initial_globals\<lparr>current_zoom := 2\<rparr>) [] 0 dot_mid = Inr (dot_mid, [((2, 2), [0])])"
    by (simp add: update_def Let_def WORLD_SIZE_def dot_mid_def c2)
  show ?thesis using c1 c2 u1 u2 by simp
qed

text \<open>
  Claim C6, amended.  At a zoom other than zero the cell of a position is
  \<open>(floor (x * current_zoom / GRID_SIZE), floor (y * current_zoom / GRID_SIZE))\<close>, a function
  of the position and the current zoom, and \<open>Dot.update\<close> appends the dot to the cell of
  its new position.
\<close>

theorem grid_cell_of_position_and_zoom:
  assumes "current_zoom G \<noteq> 0"
  shows "get_grid_cell G p
           = Inr (\<lfloor>fst p * current_zoom G / real_of_int GRID_SIZE\<rfloor>,
                  \<lfloor>snd p * current_zoom G / real_of_int GRID_SIZE\<rfloor>)
         \<and> (\<exists>d' c. update G grid i d = Inr (d', grid_append grid c i)
               \<and> get_grid_cell G (pos d') = Inr c)"
proof -
  have "get_grid_cell G p
           = Inr (\<lfloor>fst p * current_zoom G / real_of_int GRID_SIZE\<rfloor>,
                  \<lfloor>snd p * current_zoom G / real_of_int GRID_SIZE\<rfloor>)" for p
    using assms by (simp add: get_grid_cell_Inr)
  moreover have "\<exists>d' c. update G grid i d = Inr (d', grid_append grid c i)
               \<and> get_grid_cell G (pos d') = Inr c"
    using assms
    by (simp add: update_def Let_def case_prod_beta get_grid_cell_Inr)
  ultimately show ?thesis by blast
qed

theorem grid_cell_of_position_and_zoom_witness:
  "current_zoom (initial_globals\<lparr>current_zoom := 2\<rparr>) \<noteq> 0
   \<and> get_grid_cell (initial_globals\<lparr>current_zoom := 2\<rparr>) (30, 40) = Inr (2, 3)"
proof -
  have h: "current_zoom (initial_globals\<lparr>current_zoom := 2\<rparr>) \<noteq> 0" by simp
  show ?thesis
    using h grid_cell_of_position_and_zoom[OF h, of "(30, 40)" "[]" 0 dot_mid]
    by (simp add: GRID_SIZE_def)
qed

subsection \<open>Camera\<close>

lemma intervals_meet:
  fixes a b c d :: real
  shows "{a..b} \<inter> {c..d} \<noteq> {} \<longleftrightarrow> a \<le> b \<and> c \<le> d \<and> a \<le> d \<and> c \<le> b"
  by (auto simp: Int_atLeastAtMost)

lemma box_on_screen_iff:
  assumes "0 \<le> dot_size d" "0 \<le> fst (WINDOW_SIZE G)" "0 \<le> snd (WINDOW_SIZE G)"
  shows "box_on_screen G d \<longleftrightarrow>
           - real_of_int (dot_size d) \<le> fst (world_to_screen G (pos d))
           \<and> fst (world_to_screen G (pos d)) \<le> real_of_int (fst (WINDOW_SIZE G)) + real_of_int (dot_size d)
           \<and> - real_of_int (dot_size d) \<le> snd (world_to_screen G (pos d))
           \<and> snd (world_to_screen G (pos d)) \<le> real_of_int (snd (WINDOW_SIZE G)) + real_of_int (dot_size d)"
proof -
  define r where "r = real_of_int (dot_size d)"
  define sx where "sx = fst (world_to_screen G (pos d))"
  define sy where "sy = snd (world_to_screen G (pos d))"
  define w where "w = real_of_int (fst (WINDOW_SIZE G))"
  define h where "h = real_of_int (snd (WINDOW_SIZE G))"
  have r0: "0 \<le> r" and w0: "0 \<le> w" and h0: "0 \<le> h"
    using assms by (simp_all add: r_def w_def h_def)
  have "box_on_screen G d \<longleftrightarrow>
          {sx - r .. sx + r} \<inter> {0 .. w} \<noteq> {} \<and> {sy - r .. sy + r} \<inter> {0 .. h} \<noteq> {}"
    unfolding box_on_screen_def screen_bounding_box_def screen_rectangle_def Let_def
      Times_Int_Times
    by (simp only: Sigma_empty_iff r_def sx_def sy_def w_def h_def) blast
  also have "\<dots> \<longleftrightarrow> - r \<le> sx \<and> sx \<le> w + r \<and> - r \<le> sy \<and> sy \<le> h + r"
    unfolding intervals_meet using r0 w0 h0 by auto
  finally show ?thesis by (simp add: r_def sx_def sy_def w_def h_def)
qed

text \<open>
  Claim C8.  For a dot of non-negative size and a window of non-negative width and height,
  \<open>check_visibility\<close> returns (and stores) true exactly when the screen-space bounding box
  of the dot meets the window rectangle.  With offset \<open>(0, 0)\<close>, zoom 1 and an 800 by 600
  window, a dot of size 10 at \<open>(100, 100)\<close> is visible and one at \<open>(5000, 4000)\<close> is not.
\<close>

theorem check_visibility_box:
  assumes "0 \<le> dot_size d" "0 \<le> fst (WINDOW_SIZE G)" "0 \<le> snd (WINDOW_SIZE G)"
  shows "(fst (check_visibility G d) \<longleftrightarrow> box_on_screen G d)
         \<and> snd (check_visibility G d) = d\<lparr>visible := box_on_screen G d\<rparr>
         \<and> fst (check_visibility scenario_globals dot_near)
         \<and> \<not> fst (check_visibility scenario_globals dot_far)"
proof -
  have v: "fst (check_visibility G d) \<longleftrightarrow> box_on_screen G d"
    unfolding box_on_screen_iff[OF assms]
    by (simp add: check_visibility_def Let_def world_to_screen_def)
  have s: "snd (check_visibility G d) = d\<lparr>visible := fst (check_visibility G d)\<rparr>"
    by (simp add: check_visibility_def Let_def)
  have n: "fst (check_visibility scenario_globals dot_near)"
    by (simp add: check_visibility_def Let_def scenario_globals_def dot_near_def)
  have f: "\<not> fst (check_visibility scenario_globals dot_far)"
    by (simp add: check_visibility_def Let_def scenario_globals_def dot_far_def)
  show ?thesis using v s n f by simp
qed

theorem check_visibility_box_witness:
  "0 \<le> dot_size dot_near \<and> 0 \<le> fst (WINDOW_SIZE scenario_globals)
   \<and> 0 \<le> snd (WINDOW_SIZE scenario_globals)
   \<and> box_on_screen scenario_globals dot_near
   \<and> snd (check_visibility scenario_globals dot_near) = dot_near\<lparr>visible := True\<rparr>"
proof -
  have h: "0 \<le> dot_size dot_near" "0 \<le> fst (WINDOW_SIZE scenario_globals)"
    "0 \<le> snd (WINDOW_SIZE scenario_globals)"
    by (simp_all add: dot_near_def scenario_globals_def)
  have n: "fst (check_visibility scenario_globals dot_near)"
    by (simp add: check_visibility_def Let_def scenario_globals_def dot_near_def)
  from check_visibility_box[OF h] n have "box_on_screen scenario_globals dot_near"
    and "snd (check_visibility scenario_globals dot_near)
           = dot_near\<lparr>visible := box_on_screen scenario_globals dot_near\<rparr>"
    by simp_all
  then show ?thesis using h by simp
qed

lemma zoom_to_fixes_point:
  assumes "current_zoom G \<noteq> 0" "nz \<noteq> 0"
  shows "\<exists>G' w. zoom_to nz m G = Inr G' \<and> screen_to_world G m = Inr w
           \<and> current_zoom G' = nz \<and> world_to_screen G' w = m"
proof -
  define G' where "G' = G\<lparr>CURRENT_POSITION :=
                    (fst (CURRENT_POSITION G) - (fst m / current_zoom G - fst m / nz),
                     snd (CURRENT_POSITION G) - (snd m / current_zoom G - snd m / nz)),
                  current_zoom := nz\<rparr>"
  define w where "w = (fst m / current_zoom G - fst (CURRENT_POSITION G),
                snd m / current_zoom G - snd (CURRENT_POSITION G))"
  have 1: "zoom_to nz m G = Inr G'" using assms by (simp add: zoom_to_def G'_def)
  have 2: "screen_to_world G m = Inr w" using assms by (simp add: screen_to_world_def w_def)
  have 3: "current_zoom G' = nz" by (simp add: G'_def)
  have "fst (world_to_screen G' w) = fst m" "snd (world_to_screen G' w) = snd m"
    using assms by (simp_all add: world_to_screen_def G'_def w_def)
  then have 4: "world_to_screen G' w = m" by (simp add: prod_eq_iff)
  show ?thesis using 1 2 3 4 by blast
qed

text \<open>
  Claim C9.  For an old and a new zoom in \<open>[0.1, 3]\<close>, any offset and any mouse position,
  moving the camera to the new zoom keeps the world point under the mouse at the mouse
  position; so does the whole \<open>MOUSEWHEEL\<close> branch, whose new zoom is in \<open>[0.1, 3]\<close>.  From
  zoom 1 and offset \<open>(0, 0)\<close>, zooming to 2 around \<open>(400, 300)\<close> keeps the world point
  \<open>(400, 300)\<close> at the screen point \<open>(400, 300)\<close>.
\<close>

theorem zoom_keeps_anchor:
  assumes "0.1 \<le> current_zoom G" "current_zoom G \<le> 3" "0.1 \<le> nz" "nz \<le> 3"
  shows "(\<exists>G' w. zoom_to nz m G = Inr G' \<and> screen_to_world G m = Inr w
            \<and> current_zoom G' = nz \<and> world_to_screen G' w = m)
         \<and> (\<exists>G' w. on_mousewheel event_y m G = Inr G' \<and> screen_to_world G m = Inr w
            \<and> 0.1 \<le> current_zoom G' \<and> current_zoom G' \<le> 3 \<and> world_to_screen G' w = m)
         \<and> (\<exists>G'. zoom_to 2 (400, 300) scenario_globals = Inr G'
            \<and> screen_to_world scenario_globals (400, 300) = Inr (400, 300)
            \<and> world_to_screen G' (400, 300) = (400, 300))"
proof -
  have z: "current_zoom G \<noteq> 0" using assms(1) by auto
  have n: "nz \<noteq> 0" using assms(3) by auto
  have a: "\<exists>G' w. zoom_to nz m G = Inr G' \<and> screen_to_world G m = Inr w
            \<and> current_zoom G' = nz \<and> world_to_screen G' w = m"
    by (rule zoom_to_fixes_point[OF z n])
  define nz' :: real where
    "nz' = max 0.1 (min (current_zoom G + (if event_y > 0 then 0.05 else - 0.05)
                          * (0.5 + current_zoom G / 3)) 3)"
  have r: "0.1 \<le> nz'" "nz' \<le> 3" unfolding nz'_def by auto
  then have n': "nz' \<noteq> 0" by auto
  have w: "on_mousewheel event_y m G = zoom_to nz' m G"
    by (simp add: on_mousewheel_def Let_def nz'_def)
  have b: "\<exists>G' w. on_mousewheel event_y m G = Inr G' \<and> screen_to_world G m = Inr w
            \<and> 0.1 \<le> current_zoom G' \<and> current_zoom G' \<le> 3 \<and> world_to_screen G' w = m"
    using zoom_to_fixes_point[OF z n', of m] r unfolding w by auto
  have c: "\<exists>G'. zoom_to 2 (400, 300) scenario_globals = Inr G'
            \<and> screen_to_world scenario_globals (400, 300) = Inr (400, 300)
            \<and> world_to_screen G' (400, 300) = (400, 300)"
    by (simp add: zoom_to_def screen_to_world_def world_to_screen_def scenario_globals_def)
  show ?thesis using a b c by blast
qed

theorem zoom_keeps_anchor_witness:
  "0.1 \<le> current_zoom scenario_globals \<and> current_zoom scenario_globals \<le> 3
   \<and> (0.1 :: real) \<le> 2 \<and> (2 :: real) \<le> 3
   \<and> (\<exists>G'. zoom_to 2 (400, 300) scenario_globals = Inr G' \<and> current_zoom G' = 2
          \<and> world_to_screen G' (400, 300) = (400, 300))
   \<and> (\<exists>G'. on_mousewheel 1 (400, 300) scenario_globals = Inr G'
          \<and> world_to_screen G' (400, 300) = (400, 300))"
proof -
  have h: "0.1 \<le> current_zoom scenario_globals" "current_zoom scenario_globals \<le> 3"
    "(0.1 :: real) \<le> 2" "(2 :: real) \<le> 3"
    by (simp_all add: scenario_globals_def)
  have w: "screen_to_world scenario_globals (400, 300) = Inr (400, 300)"
    by (simp add: screen_to_world_def scenario_globals_def)
  show ?thesis
    using h w zoom_keeps_anchor[OF h, of "(400, 300)" 1] by auto
qed

lemma check_visibility_keeps:
  "pos (snd (check_visibility G d)) = pos d" "vel (snd (check_visibility G d)) = vel d"
  "dot_size (snd (check_visibility G d)) = dot_size d"
  by (simp_all add: check_visibility_def Let_def)

lemma kinematics_update:
  assumes "pos d = pos (ds ! i)" "vel d = vel (ds ! i)"
  shows "kinematics (ds[i := d]) = kinematics ds"
proof (cases "i < length ds")
  case True
  have "kinematics (ds[i := d]) = (kinematics ds)[i := (pos d, vel d)]"
    by (simp add: kinematics_def map_update)
  also have "(pos d, vel d) = kinematics ds ! i"
    using True assms by (simp add: kinematics_def)
  finally show ?thesis by simp
next
  case False
  then have "ds[i := d] = ds" by (intro list_update_beyond) simp
  then show ?thesis by simp
qed

lemma count_dot_kinematics: "kinematics (snd (count_dot G i st)) = kinematics (snd st)"
  by (simp add: count_dot_def case_prod_beta Let_def kinematics_update check_visibility_keeps)

lemma count_cell_kinematics:
  "kinematics (snd (fold (count_dot G) dots st)) = kinematics (snd st)"
  by (induction dots arbitrary: st) (simp_all add: count_dot_kinematics)

lemma count_visible_kinematics:
  "kinematics (snd (count_visible G grid ds)) = kinematics ds"
proof -
  have "kinematics (snd (fold (\<lambda>(cell, dots). fold (count_dot G) dots) grid st))
          = kinematics (snd st)" for st :: "nat \<times> dot list"
    by (induction grid arbitrary: st) (simp_all add: case_prod_beta count_cell_kinematics)
  from this[of "(0, ds)"] show ?thesis by (simp add: count_visible_def)
qed

lemma get_grid_cell_offset: "get_grid_cell (G\<lparr>CURRENT_POSITION := p\<rparr>) = get_grid_cell G"
  by (rule ext) (simp add: get_grid_cell_def)

lemma update_offset: "update (G\<lparr>CURRENT_POSITION := p\<rparr>) = update G"
  by (intro ext) (simp add: update_def get_grid_cell_offset)

lemma physics_offset: "physics (G\<lparr>CURRENT_POSITION := p\<rparr>) ds = physics G ds"
  by (simp add: physics_def update_all_def update_offset)

text \<open>
  Claim C10.  The camera offset does not influence the physics: with the same zoom and
  window, two offsets give the same result of the physics block (dots, grid or exception),
  and the same positions and velocities after the frame, visibility count included.
\<close>

theorem camera_offset_no_influence:
  "physics (G\<lparr>CURRENT_POSITION := p\<rparr>) ds = physics (G\<lparr>CURRENT_POSITION := q\<rparr>) ds
   \<and> frame_kinematics (frame (G\<lparr>CURRENT_POSITION := p\<rparr>) is_paused (ds, grid))
       = frame_kinematics (frame (G\<lparr>CURRENT_POSITION := q\<rparr>) is_paused (ds, grid))"
proof -
  have k: "frame_kinematics (frame (G\<lparr>CURRENT_POSITION := p\<rparr>) is_paused (ds, grid))
           = (case (if \<not> is_paused then physics G ds else Inr (ds, grid)) of
                Inl e \<Rightarrow> Inl e | Inr (ds', grid') \<Rightarrow> Inr (kinematics ds'))" for p
    by (simp add: frame_def frame_kinematics_def physics_offset case_prod_beta Let_def
          count_visible_kinematics split: sum.splits)
  show ?thesis by (simp add: physics_offset k)
qed

theorem camera_offset_no_influence_witness:
  "physics (initial_globals\<lparr>CURRENT_POSITION := (0, 0)\<rparr>) [dot_a, dot_b]
     = physics (initial_globals\<lparr>CURRENT_POSITION := (- 3000, - 2250)\<rparr>) [dot_a, dot_b]"
  using camera_offset_no_influence[where G = initial_globals and p = "(0, 0)"
      and q = "(- 3000, - 2250)" and ds = "[dot_a, dot_b]"]
  by (rule conjunct1)

subsection \<open>Collision phase\<close>

text \<open>Loops and sequences of pieces that resolve the pair at most once.\<close>

lemma exactly_once_at_most: "exactly_once ds T f \<Longrightarrow> at_most_once ds T f"
  by (simp add: exactly_once_def at_most_once_def)

lemma at_most_once_Inr: "at_most_once ds T Inr"
  by (simp add: at_most_once_def)

lemma for_each_done:
  assumes "\<And>x. x \<in> set xs \<Longrightarrow> body x R = Inr R"
  shows "for_each xs body R = Inr R"
  using assms by (induction xs) simp_all

lemma for_each_after:
  assumes "\<And>x. x \<in> set xs \<Longrightarrow> at_most_once ds T (body x)" "T = Inr R"
  shows "for_each xs body R = T"
  unfolding \<open>T = Inr R\<close>
  by (rule for_each_done) (use assms in \<open>auto simp: at_most_once_def\<close>)

lemma for_each_first:
  assumes q: "\<And>y. y \<in> set (x # xs) \<Longrightarrow> at_most_once ds T (body y)" and t: "body x ds = T"
  shows "for_each (x # xs) body ds = T"
proof (cases T)
  case (Inl e)
  then show ?thesis using t by simp
next
  case (Inr R)
  have "for_each xs body R = T"
    by (rule for_each_after[OF _ Inr]) (use q in auto)
  then show ?thesis using t Inr by simp
qed

lemma at_most_once_for_each:
  assumes "\<And>x. x \<in> set xs \<Longrightarrow> at_most_once ds T (body x)"
  shows "at_most_once ds T (for_each xs body)"
proof -
  have "for_each xs body ds = Inr ds \<or> for_each xs body ds = T"
    using assms
  proof (induction xs)
    case Nil
    then show ?case by simp
  next
    case (Cons x xs)
    show ?case
    proof (cases "body x ds = T")
      case True
      have "for_each (x # xs) body ds = T"
      proof (rule for_each_first)
        show "body x ds = T" by (rule True)
        show "\<And>y. y \<in> set (x # xs) \<Longrightarrow> at_most_once ds T (body y)" by (rule Cons.prems)
      qed
      then show ?thesis by simp
    next
      case False
      then have "body x ds = Inr ds" using Cons.prems[of x] by (simp add: at_most_once_def)
      then show ?thesis using Cons.IH Cons.prems by simp
    qed
  qed
  moreover have "for_each xs body R = T" if "T = Inr R" for R
    by (rule for_each_after[where ds = ds]) (use assms that in auto)
  ultimately show ?thesis by (simp add: at_most_once_def)
qed

lemma exactly_once_for_each:
  assumes q: "\<And>x. x \<in> set xs \<Longrightarrow> at_most_once ds T (body x)"
    and x0: "x0 \<in> set xs" and h: "exactly_once ds T (body x0)"
  shows "exactly_once ds T (for_each xs body)"
proof -
  have "for_each xs body ds = T"
    using q x0
  proof (induction xs)
    case Nil
    then show ?case by simp
  next
    case (Cons x xs)
    show ?case
    proof (cases "body x ds = T")
      case True
      show ?thesis
      proof (rule for_each_first)
        show "body x ds = T" by (rule True)
        show "\<And>y. y \<in> set (x # xs) \<Longrightarrow> at_most_once ds T (body y)"
          by (rule Cons.prems(1))
      qed
    next
      case False
      then have s: "body x ds = Inr ds" using Cons.prems(1)[of x] by (simp add: at_most_once_def)
      have "x \<noteq> x0" using False h by (auto simp: exactly_once_def)
      then have "x0 \<in> set xs" using Cons.prems(2) by simp
      then show ?thesis using Cons.IH Cons.prems(1) s by simp
    qed
  qed
  moreover have "for_each xs body R = T" if "T = Inr R" for R
    by (rule for_each_after[where ds = ds]) (use q that in auto)
  ultimately show ?thesis by (simp add: exactly_once_def)
qed

lemma at_most_once_seq:
  assumes "at_most_once ds T f" "at_most_once ds T g"
  shows "at_most_once ds T (\<lambda>s. case f s of Inl e \<Rightarrow> Inl e | Inr s' \<Rightarrow> g s')"
  using assms unfolding at_most_once_def by (cases T) auto

lemma exactly_once_seq2:
  assumes "at_most_once ds T f" "exactly_once ds T g"
  shows "exactly_once ds T (\<lambda>s. case f s of Inl e \<Rightarrow> Inl e | Inr s' \<Rightarrow> g s')"
  using assms unfolding at_most_once_def exactly_once_def by (cases T) auto

text \<open>The statement \<open>if detect_collision: resolve_collision\<close> on one pair of dots.\<close>

lemma detect_collision_sym: "detect_collision a b = detect_collision b a"
proof -
  have "(x - y) * (x - y) = (y - x) * (y - x)" for x y :: real
    by (simp add: algebra_simps)
  then show ?thesis
    by (simp add: detect_collision_def Let_def abs_minus_commute add.commute)
qed

lemma detect_collision_same_place:
  assumes "pos a' = pos a" "dot_size a' = dot_size a" "pos b' = pos b" "dot_size b' = dot_size b"
  shows "detect_collision a' b' = detect_collision a b"
  using assms by (simp add: detect_collision_def)

lemma collide_swap:
  assumes "a \<noteq> b" "detect_collision (ds ! a) (ds ! b)"
  shows "collide b a ds = collide a b ds"
proof (cases "resolve_collision (ds ! a) (ds ! b)")
  case (Inl e)
  have "resolve_collision (ds ! b) (ds ! a) = Inl e"
  proof (cases "resolve_collision (ds ! b) (ds ! a)")
    case l: (Inl e')
    show ?thesis unfolding l by (cases e; cases e') simp
  next
    case (Inr p)
    then have "resolve_collision (ds ! b) (ds ! a) = Inr (fst p, snd p)" by simp
    from resolve_collision_swap[OF this] Inl show ?thesis by simp
  qed
  then show ?thesis
    using assms Inl by (simp add: collide_def detect_collision_sym[of "ds ! b"])
next
  case (Inr p)
  obtain a' b' where p: "p = (a', b')" by (cases p)
  have r: "resolve_collision (ds ! a) (ds ! b) = Inr (a', b')" using Inr p by simp
  note r' = resolve_collision_swap[OF r]
  have "ds[b := b', a := a'] = ds[a := a', b := b']"
    using assms(1) by (simp add: list_update_swap)
  then show ?thesis
    using assms r r' by (simp add: collide_def detect_collision_sym[of "ds ! b"])
qed

lemma nth_update_same_field:
  assumes "f x = f (xs ! i)"
  shows "f (xs[i := x] ! j) = f (xs ! j)"
proof (cases "i < length xs")
  case True
  then show ?thesis using assms by (simp add: nth_list_update)
next
  case False
  then have "xs[i := x] = xs" by (intro list_update_beyond) simp
  then show ?thesis by simp
qed

lemma collide_result_same_place:
  assumes "collide a b ds = Inr R"
  shows "length R = length ds" "pos (R ! k) = pos (ds ! k)" "dot_size (R ! k) = dot_size (ds ! k)"
proof -
  have "length R = length ds \<and> pos (R ! k) = pos (ds ! k) \<and> dot_size (R ! k) = dot_size (ds ! k)"
  proof (cases "detect_collision (ds ! a) (ds ! b)")
    case False
    then show ?thesis using assms by (simp add: collide_def)
  next
    case True
    then obtain a' b' where r: "resolve_collision (ds ! a) (ds ! b) = Inr (a', b')"
      and R: "R = ds[a := a', b := b']"
      using assms by (auto simp: collide_def split: sum.splits)
    note keep = resolve_collision_keeps[OF r]
    have pa: "pos (ds[a := a'] ! j) = pos (ds ! j)" for j
      by (rule nth_update_same_field) (simp add: keep)
    have sa: "dot_size (ds[a := a'] ! j) = dot_size (ds ! j)" for j
      by (rule nth_update_same_field) (simp add: keep)
    have "pos (ds[a := a', b := b'] ! k) = pos (ds[a := a'] ! k)"
      by (rule nth_update_same_field) (simp add: keep pa)
    moreover have "dot_size (ds[a := a', b := b'] ! k) = dot_size (ds[a := a'] ! k)"
      by (rule nth_update_same_field) (simp add: keep sa)
    ultimately show ?thesis by (simp add: R pa sa)
  qed
  then show "length R = length ds" "pos (R ! k) = pos (ds ! k)"
    "dot_size (R ! k) = dot_size (ds ! k)" by simp_all
qed

lemma collide_after:
  assumes ab: "a \<noteq> b" "a < length ds" "b < length ds"
    and lp: "lone_pair ds a b" and T: "collide a b ds = Inr R"
    and ij: "i < length ds" "j < length ds" "i \<noteq> j"
  shows "collide i j R = Inr R"
proof -
  have hit: "detect_collision (ds ! a) (ds ! b)" using lp by (simp add: lone_pair_def)
  obtain a' b' where r: "resolve_collision (ds ! a) (ds ! b) = Inr (a', b')"
    and R: "R = ds[a := a', b := b']"
    using T hit by (auto simp: collide_def split: sum.splits)
  have Ra: "R ! a = a'" and Rb: "R ! b = b'" using ab by (simp_all add: R)
  have idR: "R[a := a', b := b'] = R" "R[b := b', a := a'] = R"
    by (simp_all add: Ra[symmetric] Rb[symmetric])
  have d: "detect_collision (R ! i) (R ! j) = detect_collision (ds ! i) (ds ! j)"
    by (rule detect_collision_same_place) (simp_all add: collide_result_same_place[OF T])
  show ?thesis
  proof (cases "detect_collision (ds ! i) (ds ! j)")
    case False
    then show ?thesis using d by (simp add: collide_def)
  next
    case True
    then have "{i, j} = {a, b}" using lp ij by (auto simp: lone_pair_def)
    then consider "i = a" "j = b" | "i = b" "j = a" using ij(3) by (auto simp: doubleton_eq_iff)
    then show ?thesis
    proof cases
      case 1
      have "resolve_collision a' b' = Inr (a', b')" by (rule resolve_collision_again[OF r])
      then show ?thesis using 1 True d Ra Rb idR by (simp add: collide_def)
    next
      case 2
      have "resolve_collision b' a' = Inr (b', a')"
        by (rule resolve_collision_swap[OF resolve_collision_again[OF r]])
      then show ?thesis using 2 True d Ra Rb idR by (simp add: collide_def)
    qed
  qed
qed

lemma collide_at_most_once:
  assumes ab: "a \<noteq> b" "a < length ds" "b < length ds"
    and lp: "lone_pair ds a b"
    and ij: "i < length ds" "j < length ds" "i \<noteq> j"
  shows "at_most_once ds (collide a b ds) (collide i j)"
proof -
  have hit: "detect_collision (ds ! a) (ds ! b)" using lp by (simp add: lone_pair_def)
  have "collide i j ds = Inr ds \<or> collide i j ds = collide a b ds"
  proof (cases "{i, j} = {a, b}")
    case True
    then consider "i = a" "j = b" | "i = b" "j = a" using ij(3) by (auto simp: doubleton_eq_iff)
    then show ?thesis using collide_swap[OF ab(1) hit] by cases simp_all
  next
    case False
    then have "\<not> detect_collision (ds ! i) (ds ! j)" using lp ij by (simp add: lone_pair_def)
    then show ?thesis by (simp add: collide_def)
  qed
  moreover have "collide i j R = collide a b ds" if "collide a b ds = Inr R" for R
    using collide_after[OF ab lp that ij] that by simp
  ultimately show ?thesis by (simp add: at_most_once_def)
qed

lemma collide_exactly_once:
  assumes ab: "a \<noteq> b" "a < length ds" "b < length ds"
    and lp: "lone_pair ds a b"
  shows "exactly_once ds (collide a b ds) (collide a b)"
  using collide_at_most_once[OF ab lp ab(2) ab(3) ab(1)]
  by (simp add: at_most_once_def exactly_once_def)

lemma intra_at_most_once:
  assumes ab: "a \<noteq> b" "a < length ds" "b < length ds"
    and lp: "lone_pair ds a b"
    and dots: "distinct dots" "\<And>k. k \<in> set dots \<Longrightarrow> k < length ds"
  shows "at_most_once ds (collide a b ds)
           (for_each [0..<length dots]
              (\<lambda>i. for_each [i + 1..<length dots] (\<lambda>j. collide (dots ! i) (dots ! j))))"
proof (rule at_most_once_for_each)
  fix i assume i: "i \<in> set [0..<length dots]"
  show "at_most_once ds (collide a b ds)
          (for_each [i + 1..<length dots] (\<lambda>j. collide (dots ! i) (dots ! j)))"
  proof (rule at_most_once_for_each)
    fix j assume j: "j \<in> set [i + 1..<length dots]"
    have ne: "dots ! i \<noteq> dots ! j"
      using i j dots(1) by (simp add: nth_eq_iff_index_eq)
    show "at_most_once ds (collide a b ds) (collide (dots ! i) (dots ! j))"
      by (rule collide_at_most_once[OF ab lp _ _ ne]) (use i j dots(2) in auto)
  qed
qed

lemma cross_at_most_once:
  assumes ab: "a \<noteq> b" "a < length ds" "b < length ds"
    and lp: "lone_pair ds a b"
    and us: "\<And>k. k \<in> set us \<Longrightarrow> k < length ds" and vs: "\<And>k. k \<in> set vs \<Longrightarrow> k < length ds"
    and disj: "set us \<inter> set vs = {}"
  shows "at_most_once ds (collide a b ds)
           (for_each us (\<lambda>dot1. for_each vs (\<lambda>dot2. collide dot1 dot2)))"
proof (rule at_most_once_for_each)
  fix i assume i: "i \<in> set us"
  show "at_most_once ds (collide a b ds) (for_each vs (\<lambda>dot2. collide i dot2))"
  proof (rule at_most_once_for_each)
    fix j assume j: "j \<in> set vs"
    have ne: "i \<noteq> j" using i j disj by auto
    show "at_most_once ds (collide a b ds) (collide i j)"
      by (rule collide_at_most_once[OF ab lp us[OF i] vs[OF j] ne])
  qed
qed

lemma cross_exactly_once:
  assumes ab: "a \<noteq> b" "a < length ds" "b < length ds"
    and lp: "lone_pair ds a b"
    and us: "\<And>k. k \<in> set us \<Longrightarrow> k < length ds" and vs: "\<And>k. k \<in> set vs \<Longrightarrow> k < length ds"
    and disj: "set us \<inter> set vs = {}"
    and mem: "a \<in> set us" "b \<in> set vs"
  shows "exactly_once ds (collide a b ds)
           (for_each us (\<lambda>dot1. for_each vs (\<lambda>dot2. collide dot1 dot2)))"
proof (rule exactly_once_for_each[where ?x0.0 = a])
  fix i assume i: "i \<in> set us"
  show "at_most_once ds (collide a b ds) (for_each vs (\<lambda>dot2. collide i dot2))"
  proof (rule at_most_once_for_each)
    fix j assume j: "j \<in> set vs"
    have ne: "i \<noteq> j" using i j disj by auto
    show "at_most_once ds (collide a b ds) (collide i j)"
      by (rule collide_at_most_once[OF ab lp us[OF i] vs[OF j] ne])
  qed
next
  show "a \<in> set us" by (rule mem(1))
next
  show "exactly_once ds (collide a b ds) (for_each vs (\<lambda>dot2. collide a dot2))"
  proof (rule exactly_once_for_each[where ?x0.0 = b])
    fix j assume j: "j \<in> set vs"
    have ne: "a \<noteq> j" using mem(1) j disj by auto
    show "at_most_once ds (collide a b ds) (collide a j)"
      by (rule collide_at_most_once[OF ab lp ab(2) vs[OF j] ne])
  next
    show "b \<in> set vs" by (rule mem(2))
  next
    show "exactly_once ds (collide a b ds) (collide a b)"
      by (rule collide_exactly_once[OF ab lp])
  qed
qed

lemma neighbor_offsets_nonzero: "offset \<in> set neighbor_offsets \<Longrightarrow> offset \<noteq> (0, 0)"
  by (auto simp: neighbor_offsets_def)

text \<open>A grid of two cells.\<close>

lemma neighbor_step_at_most_once:
  assumes ab: "a \<noteq> b" "a < length ds" "b < length ds"
    and lp: "lone_pair ds a b"
    and us: "\<And>k. k \<in> set us \<Longrightarrow> k < length ds"
    and nb: "\<And>vs. map_of grid (fst cell + fst offset, snd cell + snd offset) = Some vs
               \<Longrightarrow> (\<forall>k \<in> set vs. k < length ds) \<and> set us \<inter> set vs = {}"
  shows "at_most_once ds (collide a b ds)
           (let neighbor_cell = (fst cell + fst offset, snd cell + snd offset)
            in case map_of grid neighbor_cell of
                 None \<Rightarrow> Inr
               | Some neighbors \<Rightarrow>
                   for_each us (\<lambda>dot1. for_each neighbors (\<lambda>dot2. collide dot1 dot2)))"
proof (cases "map_of grid (fst cell + fst offset, snd cell + snd offset)")
  case None
  then show ?thesis by (simp add: at_most_once_Inr)
next
  case (Some vs)
  have "at_most_once ds (collide a b ds)
          (for_each us (\<lambda>dot1. for_each vs (\<lambda>dot2. collide dot1 dot2)))"
    by (rule cross_at_most_once[OF ab lp us]) (use nb[OF Some] in auto)
  then show ?thesis using Some by simp
qed

lemma two_cells_lookup:
  assumes "c1 \<noteq> c2" "offset \<in> set neighbor_offsets"
  shows "map_of [(c1, xs), (c2, ys)] (fst c1 + fst offset, snd c1 + snd offset)
           = (if (fst c1 + fst offset, snd c1 + snd offset) = c2 then Some ys else None)"
    and "map_of [(c1, xs), (c2, ys)] (fst c2 + fst offset, snd c2 + snd offset)
           = (if (fst c2 + fst offset, snd c2 + snd offset) = c1 then Some xs else None)"
proof -
  have z: "offset \<noteq> (0, 0)" by (rule neighbor_offsets_nonzero[OF assms(2)])
  then have 1: "(fst c1 + fst offset, snd c1 + snd offset) \<noteq> c1"
    and 2: "(fst c2 + fst offset, snd c2 + snd offset) \<noteq> c2"
    by (auto simp: prod_eq_iff)
  show "map_of [(c1, xs), (c2, ys)] (fst c1 + fst offset, snd c1 + snd offset)
           = (if (fst c1 + fst offset, snd c1 + snd offset) = c2 then Some ys else None)"
    using 1 by auto
  show "map_of [(c1, xs), (c2, ys)] (fst c2 + fst offset, snd c2 + snd offset)
           = (if (fst c2 + fst offset, snd c2 + snd offset) = c1 then Some xs else None)"
    using 2 by auto
qed

lemma second_cell_at_most_once:
  assumes ab: "a \<noteq> b" "a < length ds" "b < length ds"
    and lp: "lone_pair ds a b"
    and idx: "distinct (xs @ ys)" "\<And>k. k \<in> set (xs @ ys) \<Longrightarrow> k < length ds"
    and c: "c1 \<noteq> c2"
  shows "at_most_once ds (collide a b ds) (collide_cell [(c1, xs), (c2, ys)] c2 ys)"
  unfolding collide_cell_def
proof (rule at_most_once_seq)
  show "at_most_once ds (collide a b ds)
          (for_each [0..<length ys]
             (\<lambda>i. for_each [i + 1..<length ys] (\<lambda>j. collide (ys ! i) (ys ! j))))"
    by (rule intra_at_most_once[OF ab lp]) (use idx in auto)
next
  show "at_most_once ds (collide a b ds)
     (for_each neighbor_offsets
       (\<lambda>offset.
           let neighbor_cell = (fst c2 + fst offset, snd c2 + snd offset)
           in case map_of [(c1, xs), (c2, ys)] neighbor_cell of None \<Rightarrow> Inr
              | Some neighbors \<Rightarrow>
                  for_each ys (\<lambda>dot1. for_each neighbors (\<lambda>dot2. collide dot1 dot2))))"
  proof (rule at_most_once_for_each)
    fix offset assume o: "offset \<in> set neighbor_offsets"
    show "at_most_once ds (collide a b ds)
            (let neighbor_cell = (fst c2 + fst offset, snd c2 + snd offset)
             in case map_of [(c1, xs), (c2, ys)] neighbor_cell of None \<Rightarrow> Inr
                | Some neighbors \<Rightarrow>
                    for_each ys (\<lambda>dot1. for_each neighbors (\<lambda>dot2. collide dot1 dot2)))"
    proof (rule neighbor_step_at_most_once[OF ab lp])
      fix k assume "k \<in> set ys" then show "k < length ds" using idx(2) by simp
    next
      fix vs assume "map_of [(c1, xs), (c2, ys)] (fst c2 + fst offset, snd c2 + snd offset) = Some vs"
      then have "vs = xs"
        unfolding two_cells_lookup(2)[OF c o] by (simp split: if_splits)
      then show "(\<forall>k \<in> set vs. k < length ds) \<and> set ys \<inter> set vs = {}"
        using idx by auto
    qed
  qed
qed

lemma first_cell_exactly_once:
  assumes ab: "a \<noteq> b" "a < length ds" "b < length ds"
    and lp: "lone_pair ds a b"
    and idx: "distinct (xs @ ys)" "\<And>k. k \<in> set (xs @ ys) \<Longrightarrow> k < length ds"
    and adj: "(fst c2 - fst c1, snd c2 - snd c1) \<in> set neighbor_offsets"
    and mem: "a \<in> set xs" "b \<in> set ys"
  shows "exactly_once ds (collide a b ds) (collide_cell [(c1, xs), (c2, ys)] c1 xs)"
  unfolding collide_cell_def
proof (rule exactly_once_seq2)
  show "at_most_once ds (collide a b ds)
          (for_each [0..<length xs]
             (\<lambda>i. for_each [i + 1..<length xs] (\<lambda>j. collide (xs ! i) (xs ! j))))"
    by (rule intra_at_most_once[OF ab lp]) (use idx in auto)
next
  have c: "c1 \<noteq> c2"
    using neighbor_offsets_nonzero[OF adj] by (auto simp: prod_eq_iff)
  let ?step = "\<lambda>offset.
           let neighbor_cell = (fst c1 + fst offset, snd c1 + snd offset)
           in case map_of [(c1, xs), (c2, ys)] neighbor_cell of None \<Rightarrow> Inr
              | Some neighbors \<Rightarrow>
                  for_each xs (\<lambda>dot1. for_each neighbors (\<lambda>dot2. collide dot1 dot2))"
  show "exactly_once ds (collide a b ds) (for_each neighbor_offsets ?step)"
  proof (rule exactly_once_for_each[where ?x0.0 = "(fst c2 - fst c1, snd c2 - snd c1)"])
    fix offset assume o: "offset \<in> set neighbor_offsets"
    show "at_most_once ds (collide a b ds) (?step offset)"
    proof (rule neighbor_step_at_most_once[OF ab lp])
      fix k assume "k \<in> set xs" then show "k < length ds" using idx(2) by simp
    next
      fix vs assume "map_of [(c1, xs), (c2, ys)] (fst c1 + fst offset, snd c1 + snd offset) = Some vs"
      then have "vs = ys"
        unfolding two_cells_lookup(1)[OF c o] by (simp split: if_splits)
      then show "(\<forall>k \<in> set vs. k < length ds) \<and> set xs \<inter> set vs = {}"
        using idx by auto
    qed
  next
    show "(fst c2 - fst c1, snd c2 - snd c1) \<in> set neighbor_offsets" by (rule adj)
  next
    have l: "map_of [(c1, xs), (c2, ys)]
               (fst c1 + fst (fst c2 - fst c1, snd c2 - snd c1),
                snd c1 + snd (fst c2 - fst c1, snd c2 - snd c1)) = Some ys"
      using c by simp
    have "exactly_once ds (collide a b ds)
            (for_each xs (\<lambda>dot1. for_each ys (\<lambda>dot2. collide dot1 dot2)))"
      by (rule cross_exactly_once[OF ab lp _ _ _ mem]) (use idx in auto)
    then show "exactly_once ds (collide a b ds) (?step (fst c2 - fst c1, snd c2 - snd c1))"
      unfolding Let_def l by simp
  qed
qed

lemma collisions_two_cells:
  assumes ab: "a < length ds" "b < length ds"
    and lp: "lone_pair ds a b"
    and idx: "distinct (xs @ ys)" "\<And>k. k \<in> set (xs @ ys) \<Longrightarrow> k < length ds"
    and adj: "(fst c2 - fst c1, snd c2 - snd c1) \<in> set neighbor_offsets"
    and mem: "a \<in> set xs" "b \<in> set ys"
  shows "collisions [(c1, xs), (c2, ys)] ds = collide a b ds"
proof -
  have ne: "a \<noteq> b" using idx(1) mem by auto
  have c: "c1 \<noteq> c2"
    using neighbor_offsets_nonzero[OF adj] by (auto simp: prod_eq_iff)
  have 1: "exactly_once ds (collide a b ds) (collide_cell [(c1, xs), (c2, ys)] c1 xs)"
    by (rule first_cell_exactly_once[OF ne ab lp idx adj mem])
  have 2: "at_most_once ds (collide a b ds) (collide_cell [(c1, xs), (c2, ys)] c2 ys)"
    by (rule second_cell_at_most_once[OF ne ab lp idx c])
  have "exactly_once ds (collide a b ds)
          (for_each [(c1, xs), (c2, ys)]
             (\<lambda>(cell, dots). collide_cell [(c1, xs), (c2, ys)] cell dots))"
  proof (rule exactly_once_for_each[where ?x0.0 = "(c1, xs)"])
    fix x assume "x \<in> set [(c1, xs), (c2, ys)]"
    then show "at_most_once ds (collide a b ds)
                 (case x of (cell, dots) \<Rightarrow> collide_cell [(c1, xs), (c2, ys)] cell dots)"
      using exactly_once_at_most[OF 1] 2 by auto
  next
    show "(c1, xs) \<in> set [(c1, xs), (c2, ys)]" by simp
  next
    show "exactly_once ds (collide a b ds)
            (case (c1, xs) of (cell, dots) \<Rightarrow> collide_cell [(c1, xs), (c2, ys)] cell dots)"
      using 1 by simp
  qed
  then show ?thesis by (simp add: collisions_def exactly_once_def)
qed

text \<open>The grid that \<open>update_all\<close> builds holds every reference once.\<close>

lemma grid_append_indices:
  "set (concat (map snd (grid_append g c i))) = insert i (set (concat (map snd g)))"
  "length (concat (map snd (grid_append g c i))) = Suc (length (concat (map snd g)))"
  by (induction g c i rule: grid_append.induct) auto

lemma update_appends:
  assumes "update G grid i d = Inr (d', grid')"
  shows "\<exists>c. grid' = grid_append grid c i"
  using assms by (auto simp: update_def Let_def case_prod_beta split: sum.splits)

lemma update_loop_indices:
  assumes "for_each ks
             (\<lambda>i (ds, grid).
                case update G grid i (ds ! i) of
                  Inl e \<Rightarrow> Inl e
                | Inr (d', grid') \<Rightarrow> Inr (ds[i := d'], grid'))
             (ds, grid) = Inr (ds', grid')"
  shows "length ds' = length ds
         \<and> set (concat (map snd grid')) = set (concat (map snd grid)) \<union> set ks
         \<and> length (concat (map snd grid')) = length (concat (map snd grid)) + length ks"
  using assms
proof (induction ks arbitrary: ds grid)
  case Nil
  then show ?case by simp
next
  case (Cons k ks)
  from Cons.prems obtain d1 g1 where u: "update G grid k (ds ! k) = Inr (d1, g1)"
    by (auto split: sum.splits)
  then have rest: "for_each ks
             (\<lambda>i (ds, grid).
                case update G grid i (ds ! i) of
                  Inl e \<Rightarrow> Inl e
                | Inr (d', grid') \<Rightarrow> Inr (ds[i := d'], grid'))
             (ds[k := d1], g1) = Inr (ds', grid')"
    using Cons.prems by simp
  obtain c where g1: "g1 = grid_append grid c k" using update_appends[OF u] by blast
  show ?case
    using Cons.IH[OF rest] grid_append_indices[of grid c k] unfolding g1 by auto
qed

lemma update_all_indices:
  assumes "update_all G ds0 = Inr (ds, grid)"
  shows "length ds = length ds0" "distinct (concat (map snd grid))"
    "set (concat (map snd grid)) = {0..<length ds0}"
proof -
  note inv = update_loop_indices[OF assms[unfolded update_all_def]]
  show "length ds = length ds0" using inv by simp
  show s: "set (concat (map snd grid)) = {0..<length ds0}" using inv by simp
  have "card (set (concat (map snd grid))) = length (concat (map snd grid))"
    using inv by (simp add: s)
  then show "distinct (concat (map snd grid))" by (rule card_distinct)
qed

text \<open>
  Claim C1.  Let the dots, after they have moved, lie in exactly two adjacent cells, let the
  dots \<open>a\<close> of the first cell and \<open>b\<close> of the second collide, and let no other pair collide.
  Then the physics of one tick, which visits the pair from both cells, ends as one call of
  \<open>resolve_collision\<close> on the pair does: with its exception, or with the velocities of \<open>a\<close>
  and \<open>b\<close> that one call assigns and every other dot unchanged.
\<close>

theorem one_impulse_per_tick:
  assumes upd: "update_all G ds0 = Inr (ds, [(c1, xs), (c2, ys)])"
    and adj: "(fst c2 - fst c1, snd c2 - snd c1) \<in> set neighbor_offsets"
    and mem: "a \<in> set xs" "b \<in> set ys"
    and lp: "lone_pair ds a b"
  shows "physics G ds0 =
           (case resolve_collision (ds ! a) (ds ! b) of
              Inl e \<Rightarrow> Inl e
            | Inr (a', b') \<Rightarrow> Inr (ds[a := a', b := b'], [(c1, xs), (c2, ys)]))"
proof -
  note inv = update_all_indices[OF upd]
  have d: "distinct (xs @ ys)" using inv(2) by simp
  have r: "k < length ds" if "k \<in> set (xs @ ys)" for k
    using inv(1,3) that by auto
  have hit: "detect_collision (ds ! a) (ds ! b)" using lp by (simp add: lone_pair_def)
  have "collisions [(c1, xs), (c2, ys)] ds = collide a b ds"
    by (rule collisions_two_cells[OF _ _ lp d r adj mem]) (use r mem in auto)
  then show ?thesis
    using upd hit by (simp add: physics_def collide_def split: sum.splits)
qed

lemma upt_3: "[0..<3] = [0, Suc 0, 2]"
  by (simp add: upt_rec)

lemma update_all_tick_dots:
  "update_all initial_globals tick_dots = Inr (tick_moved, [((3, 4), [0, 1]), ((4, 4), [2])])"
proof -
  have c: "get_grid_cell initial_globals (95, 100) = Inr (3, 4)"
    "get_grid_cell initial_globals (80, 112) = Inr (3, 4)"
    "get_grid_cell initial_globals (115, 100) = Inr (4, 4)"
    by (simp_all add: get_grid_cell_def initial_globals_def GRID_SIZE_def Let_def)
  show ?thesis
    by (simp add: update_all_def tick_dots_def tick_moved_def upt_3 update_def Let_def
          WORLD_SIZE_def c numeral_2_eq_2)
qed

lemma lone_pair_tick_moved: "lone_pair tick_moved 0 2"
  by (simp add: lone_pair_def tick_moved_def detect_collision_def Let_def
        numeral_3_eq_3 less_Suc_eq numeral_2_eq_2 doubleton_eq_iff)

theorem one_impulse_per_tick_witness:
  "update_all initial_globals tick_dots = Inr (tick_moved, [((3, 4), [0, 1]), ((4, 4), [2])])
   \<and> (fst ((4, 4) :: cell) - fst ((3, 4) :: cell), snd ((4, 4) :: cell) - snd ((3, 4) :: cell))
       = (1, 0)
   \<and> lone_pair tick_moved 0 2
   \<and> physics initial_globals tick_dots = Inr (tick_result, [((3, 4), [0, 1]), ((4, 4), [2])])"
proof -
  have adj: "(fst ((4, 4) :: cell) - fst ((3, 4) :: cell), snd ((4, 4) :: cell) - snd ((3, 4) :: cell))
          \<in> set neighbor_offsets"
    by (simp add: neighbor_offsets_def)
  have mem: "0 \<in> set [0, 1 :: nat]" "2 \<in> set [2 :: nat]" by simp_all
  have res: "resolve_collision (tick_moved ! 0) (tick_moved ! 2)
               = Inr (tick_result ! 0, tick_result ! 2)"
    by (simp add: resolve_collision_def tick_moved_def tick_result_def hypot_axis Let_def)
  have upd: "tick_moved[0 := tick_result ! 0, 2 := tick_result ! 2] = tick_result"
    by (simp add: tick_moved_def tick_result_def)
  from one_impulse_per_tick[OF update_all_tick_dots adj mem lone_pair_tick_moved]
  have "physics initial_globals tick_dots = Inr (tick_result, [((3, 4), [0, 1]), ((4, 4), [2])])"
    by (simp add: res upd)
  then show ?thesis
    using update_all_tick_dots lone_pair_tick_moved by simp
qed

end
